theory Spec2Isabelle
  imports Main
begin

section \<open>Option parsing of \<open>tools.h\<close>\<close>

text \<open>
  The header \<open>tools.h\<close> keeps a process-wide table \<open>store<>::flags\<close> from
  flag names to option objects. Every option object holds a reference to a variable of
  the caller, and \<open>options::parse\<close> walks the command line once and writes into
  these variables. The embedding below makes the caller's variables an explicit,
  typed store: a reference is an address, and two option objects may hold the same
  address, as two calls of \<open>options::make\<close> on one variable produce.
\<close>

subsection \<open>The caller's variables\<close>

type_synonym addr = nat

text \<open>
  What the parser can observe of a \<open>std::ofstream\<close>: the name of the file its
  buffer is open on, if any, and the stream's \<open>failbit\<close>.
\<close>

record ofstream =
  open_file :: "string option"
  failbit :: bool

text \<open>
  One heap per C++ type, so that a reference of type \<open>bool &\<close> can only alias
  another \<open>bool &\<close>. The generic template \<open>typed_option<T>\<close> is taken at
  \<open>T = int\<close>. The field \<open>can_open\<close> is the environment of
  \<open>ofstream::open\<close>: the file names that the file system lets the process open
  for writing.
\<close>

record vars =
  bools :: "addr \<Rightarrow> bool"
  strings :: "addr \<Rightarrow> string"
  ints :: "addr \<Rightarrow> int"
  streams :: "addr \<Rightarrow> ofstream"
  can_open :: "string \<Rightarrow> bool"

subsection \<open>The two library calls made by the option objects\<close>

text \<open>
  \<open>in >> val\<close> on a \<open>std::istringstream\<close> for \<open>int val\<close>. The header
  includes \<open><array>\<close>, so it is compiled as C++11 or later, where formatted
  extraction works as follows. The sentry skips leading white space; when it reaches
  the end of the text the extraction fails before anything is stored and \<open>val\<close>
  keeps its value. Otherwise an optional sign and the decimal digits that follow are
  read; when there is no digit, zero is stored; when the number does not fit, the
  nearest bound of \<open>int\<close> (32 bits) is stored. The library stores zero when
  the text holds no number for every arithmetic type, \<open>double\<close> included. The stream
  \<open>in\<close> is a local object whose state nobody reads and that throws nothing, so
  only the new value of \<open>val\<close> is kept.
\<close>

definition isspace :: "char \<Rightarrow> bool" where
  "isspace c = (c \<in> set [CHR '' '', CHR 0x09, CHR 0x0A, CHR 0x0B, CHR 0x0C, CHR 0x0D])"

definition isdigit :: "char \<Rightarrow> bool" where
  "isdigit c = (48 \<le> (of_char c :: nat) \<and> (of_char c :: nat) \<le> 57)"

fun digits_value :: "nat \<Rightarrow> string \<Rightarrow> nat" where
  "digits_value acc [] = acc"
| "digits_value acc (c # cs) = digits_value (10 * acc + (of_char c - 48)) cs"

definition INT_MAX :: int where
  "INT_MAX = 2147483647"

definition INT_MIN :: int where
  "INT_MIN = - 2147483648"

definition extract_int :: "string \<Rightarrow> int \<Rightarrow> int" where
  "extract_int s val =
     (let r = dropWhile isspace s in
      if r = [] then val
      else
        let neg = (hd r = CHR ''-'');
            body = (if hd r = CHR ''-'' \<or> hd r = CHR ''+'' then tl r else r);
            ds = takeWhile isdigit body
        in if ds = [] then 0
           else
             let v = (if neg then - int (digits_value 0 ds) else int (digits_value 0 ds))
             in if v < INT_MIN then INT_MIN else if INT_MAX < v then INT_MAX else v)"

text \<open>
  \<open>val.open(name)\<close> on a \<open>std::ofstream\<close>: the buffer refuses to open when
  it is open already, and otherwise asks the file system. On success the stream state
  is cleared, on failure \<open>failbit\<close> is set and the buffer stays as it was.
\<close>

definition ofstream_open :: "(string \<Rightarrow> bool) \<Rightarrow> string \<Rightarrow> ofstream \<Rightarrow> ofstream" where
  "ofstream_open fs name f =
     (if open_file f = None \<and> fs name
      then f\<lparr>open_file := Some name, failbit := False\<rparr>
      else f\<lparr>failbit := True\<rparr>)"

subsection \<open>Option objects\<close>

text \<open>
  \<open>struct typed_option<T> : option\<close> and its three specialisations. Each object
  holds \<open>T & val\<close>, here the address of the variable in the heap of its type.
\<close>

datatype typed_option =
    Typed_generic addr
  | Typed_bool addr
  | Typed_string addr
  | Typed_ofstream addr

text \<open>
  \<open>bool option::parse()\<close>: the result tells the parser whether a value has to
  follow. Only the \<open>bool\<close> specialisation writes, and it answers \<open>false\<close>.
\<close>

fun opt_parse :: "typed_option \<Rightarrow> vars \<Rightarrow> bool \<times> vars" where
  "opt_parse (Typed_generic a) m = (True, m)"
| "opt_parse (Typed_bool a) m = (False, m\<lparr>bools := (bools m)(a := True)\<rparr>)"
| "opt_parse (Typed_string a) m = (True, m)"
| "opt_parse (Typed_ofstream a) m = (True, m)"

text \<open>\<open>void option::parse(const std::string & opt)\<close>.\<close>

fun opt_parse_value :: "typed_option \<Rightarrow> string \<Rightarrow> vars \<Rightarrow> vars" where
  "opt_parse_value (Typed_generic a) opt m =
     m\<lparr>ints := (ints m)(a := extract_int opt (ints m a))\<rparr>"
| "opt_parse_value (Typed_bool a) opt m = m"
| "opt_parse_value (Typed_string a) opt m = m\<lparr>strings := (strings m)(a := opt)\<rparr>"
| "opt_parse_value (Typed_ofstream a) opt m =
     m\<lparr>streams := (streams m)(a := ofstream_open (can_open m) opt (streams m a))\<rparr>"

subsection \<open>The registry\<close>

text \<open>\<open>std::map<std::string, option *> store<>::flags\<close>.\<close>

type_synonym flags = "string \<rightharpoonup> typed_option"

text \<open>
  \<open>options::make(val, name)\<close>: the type of \<open>val\<close> selects the
  specialisation, which is the constructor of the option object given here.
\<close>

definition make :: "typed_option \<Rightarrow> string \<Rightarrow> flags \<Rightarrow> flags" where
  "make new_option name fl = fl(name \<mapsto> new_option)"

subsection \<open>The parser\<close>

text \<open>
  \<open>argv[i][0] == '-'\<close>. A C string that is empty has its terminator at
  position 0, which is not the prefix character.
\<close>

definition begins_with_dash :: "string \<Rightarrow> bool" where
  "begins_with_dash s = (case s of [] \<Rightarrow> False | c # _ \<Rightarrow> c = CHR ''-'')"

text \<open>
  The body of the \<open>while\<close> loop on its flag branch: from the cursor \<open>i\<close>
  and the variables to the cursor and the variables at the end of the iteration.
  The argument vector is a list and \<open>argc\<close> is its length. The cursor is a
  natural number: it starts at 1 and never exceeds \<open>argc\<close>, and the test
  \<open>i < argc-1\<close> is evaluated only where \<open>i < argc\<close> holds.
\<close>

definition parse_body :: "flags \<Rightarrow> string list \<Rightarrow> nat \<Rightarrow> vars \<Rightarrow> nat \<times> vars" where
  "parse_body fl argv i m =
     (let opt = tl (argv ! i) in
      case fl opt of
        None \<Rightarrow> (i + 1, m)
      | Some flag \<Rightarrow>
          (case opt_parse flag m of
             (needs_value, m1) \<Rightarrow>
               if needs_value \<and> i < length argv - 1
               then (i + 1 + 1, opt_parse_value flag (argv ! (i + 1)) m1)
               else (i + 1, m1)))"

function parse_loop :: "flags \<Rightarrow> string list \<Rightarrow> nat \<Rightarrow> vars \<Rightarrow> nat \<times> vars" where
  "parse_loop fl argv i m =
     (if i < length argv then
        (if begins_with_dash (argv ! i)
         then parse_loop fl argv (fst (parse_body fl argv i m)) (snd (parse_body fl argv i m))
         else (i, m))
      else (i, m))"
  by pat_completeness auto
termination
proof (relation "measure (\<lambda>(fl, argv, i, m). length argv - i)")
  show "wf (measure (\<lambda>(fl, argv, i, m). length argv - i))"
    by simp
next
  fix fl :: flags and argv :: "string list" and i :: nat and m :: vars
  assume "i < length argv"
  then have "i < fst (parse_body fl argv i m) \<and> fst (parse_body fl argv i m) \<le> length argv"
    by (auto simp: parse_body_def Let_def split: option.splits prod.splits)
  then have "length argv - fst (parse_body fl argv i m) < length argv - i"
    by arith
  then show "((fl, argv, fst (parse_body fl argv i m), snd (parse_body fl argv i m)),
              (fl, argv, i, m)) \<in> measure (\<lambda>(fl, argv, i, m). length argv - i)"
    by (simp add: case_prod_beta)
qed

declare parse_loop.simps [simp del]

text \<open>
  \<open>int options::parse(argc, argv)\<close>: the returned index together with the
  variables as the call leaves them.
\<close>

definition parse :: "flags \<Rightarrow> string list \<Rightarrow> vars \<Rightarrow> nat \<times> vars" where
  "parse fl argv m = parse_loop fl argv 1 m"

text \<open>
  The loop goes on at cursor \<open>i\<close> when the \<open>while\<close> test holds and the
  \<open>else break\<close> branch is not taken.
\<close>

definition parse_continues :: "string list \<Rightarrow> nat \<Rightarrow> bool" where
  "parse_continues argv i = (i < length argv \<and> begins_with_dash (argv ! i))"

text \<open>
  The cursor and the variables after \<open>k\<close> executions of the loop body, counted
  from a given loop state, whatever the loop test says there.
\<close>

primrec parse_iter :: "flags \<Rightarrow> string list \<Rightarrow> nat \<Rightarrow> nat \<times> vars \<Rightarrow> nat \<times> vars" where
  "parse_iter fl argv 0 s = s"
| "parse_iter fl argv (Suc k) s = parse_iter fl argv k (parse_body fl argv (fst s) (snd s))"

text \<open>
  The cursor positions at which the loop body runs, in order: the flag tokens that the
  parser looks up. It is the loop of \<open>parse\<close> again, recording the cursor in
  place of returning it.
\<close>

function parse_visits :: "flags \<Rightarrow> string list \<Rightarrow> nat \<Rightarrow> vars \<Rightarrow> nat list" where
  "parse_visits fl argv i m =
     (if i < length argv then
        (if begins_with_dash (argv ! i)
         then i # parse_visits fl argv (fst (parse_body fl argv i m)) (snd (parse_body fl argv i m))
         else [])
      else [])"
  by pat_completeness auto
termination
proof (relation "measure (\<lambda>(fl, argv, i, m). length argv - i)")
  show "wf (measure (\<lambda>(fl, argv, i, m). length argv - i))"
    by simp
next
  fix fl :: flags and argv :: "string list" and i :: nat and m :: vars
  assume "i < length argv"
  then have "i < fst (parse_body fl argv i m) \<and> fst (parse_body fl argv i m) \<le> length argv"
    by (auto simp: parse_body_def Let_def split: option.splits prod.splits)
  then have "length argv - fst (parse_body fl argv i m) < length argv - i"
    by arith
  then show "((fl, argv, fst (parse_body fl argv i m), snd (parse_body fl argv i m)),
              (fl, argv, i, m)) \<in> measure (\<lambda>(fl, argv, i, m). length argv - i)"
    by (simp add: case_prod_beta)
qed

declare parse_visits.simps [simp del]

text \<open>
  The names that a call of \<open>parse\<close> looks up in the registry: \<open>opt\<close> at
  each visited position. Two option objects are bound to the same variable exactly
  when they are equal: same specialisation, same address.
\<close>

definition parse_names :: "flags \<Rightarrow> string list \<Rightarrow> vars \<Rightarrow> string list" where
  "parse_names fl argv m = map (\<lambda>i. tl (argv ! i)) (parse_visits fl argv 1 m)"

text \<open>
  The variable that an option object is bound to has the same value in two states.
\<close>

fun var_unchanged :: "typed_option \<Rightarrow> vars \<Rightarrow> vars \<Rightarrow> bool" where
  "var_unchanged (Typed_generic a) m m' = (ints m' a = ints m a)"
| "var_unchanged (Typed_bool a) m m' = (bools m' a = bools m a)"
| "var_unchanged (Typed_string a) m m' = (strings m' a = strings m a)"
| "var_unchanged (Typed_ofstream a) m m' = (streams m' a = streams m a)"

subsection \<open>A start state for the examples\<close>

text \<open>
  Every \<open>bool\<close> false, every string empty, every \<open>int\<close> 7, every stream
  closed, and a file system that lets every file be opened.
\<close>

definition vars0 :: vars where
  "vars0 = \<lparr>bools = (\<lambda>a. False), strings = (\<lambda>a. []), ints = (\<lambda>a. 7),
     streams = (\<lambda>a. \<lparr>open_file = None, failbit = False\<rparr>), can_open = (\<lambda>n. True)\<rparr>"

section \<open>Properties of the registry\<close>

text \<open>
  Registration changes the table only, never a variable; registering a name again
  replaces the option object that the name had.
\<close>

lemma make_lookup:
  "make new_option name fl name' = (if name' = name then Some new_option else fl name')"
  by (simp add: make_def)

section \<open>Properties of the loop\<close>

text \<open>Every execution of the loop body moves the cursor forward, and not past the end.\<close>

lemma parse_body_cursor:
  "i < length argv \<Longrightarrow>
     i < fst (parse_body fl argv i m) \<and> fst (parse_body fl argv i m) \<le> length argv"
  by (auto simp: parse_body_def Let_def split: option.splits prod.splits)

text \<open>The two ways through one evaluation of the loop test.\<close>

lemma parse_loop_stop:
  "\<not> parse_continues argv i \<Longrightarrow> parse_loop fl argv i m = (i, m)"
  by (simp add: parse_loop.simps [of fl argv i m] parse_continues_def)

lemma parse_loop_step:
  "parse_continues argv i \<Longrightarrow>
     parse_loop fl argv i m =
       parse_loop fl argv (fst (parse_body fl argv i m)) (snd (parse_body fl argv i m))"
  by (simp add: parse_loop.simps [of fl argv i m] parse_continues_def)

text \<open>
  The loop returns the state reached after some number \<open>k\<close> of executions of its
  body: \<open>k\<close> is the first count at which the loop stops, and it is bounded by
  the number of arguments left.
\<close>

lemma parse_loop_iter:
  "\<exists>k. parse_loop fl argv i m = parse_iter fl argv k (i, m) \<and>
       \<not> parse_continues argv (fst (parse_iter fl argv k (i, m))) \<and>
       (\<forall>j<k. parse_continues argv (fst (parse_iter fl argv j (i, m)))) \<and>
       k \<le> length argv - i"
proof (induction fl argv i m rule: parse_loop.induct)
  case (1 fl argv i m)
  show ?case
  proof (cases "parse_continues argv i")
    case False
    then have "parse_loop fl argv i m = parse_iter fl argv 0 (i, m)"
      by (simp add: parse_loop_stop)
    with False show ?thesis
      by (intro exI [of _ 0]) simp
  next
    case True
    let ?i' = "fst (parse_body fl argv i m)" and ?m' = "snd (parse_body fl argv i m)"
    from True have range: "i < length argv" and dash: "begins_with_dash (argv ! i)"
      by (simp_all add: parse_continues_def)
    from "1.IH" [OF range dash] obtain k where
      k: "parse_loop fl argv ?i' ?m' = parse_iter fl argv k (?i', ?m')"
        "\<not> parse_continues argv (fst (parse_iter fl argv k (?i', ?m')))"
        "\<forall>j<k. parse_continues argv (fst (parse_iter fl argv j (?i', ?m')))"
        "k \<le> length argv - ?i'"
      by blast
    have "parse_loop fl argv i m = parse_iter fl argv (Suc k) (i, m)"
      using k(1) True by (simp add: parse_loop_step)
    moreover have "\<not> parse_continues argv (fst (parse_iter fl argv (Suc k) (i, m)))"
      using k(2) by simp
    moreover have "\<forall>j<Suc k. parse_continues argv (fst (parse_iter fl argv j (i, m)))"
    proof (intro allI impI)
      fix j assume "j < Suc k"
      then show "parse_continues argv (fst (parse_iter fl argv j (i, m)))"
        using True k(3) by (cases j) simp_all
    qed
    moreover have "Suc k \<le> length argv - i"
      using k(4) parse_body_cursor [OF range, of fl m] by arith
    ultimately show ?thesis
      by blast
  qed
qed

section \<open>The visited positions and the frame of the loop\<close>

lemma parse_visits_stop:
  "\<not> parse_continues argv i \<Longrightarrow> parse_visits fl argv i m = []"
  by (simp add: parse_visits.simps [of fl argv i m] parse_continues_def)

lemma parse_visits_step:
  "parse_continues argv i \<Longrightarrow>
     parse_visits fl argv i m =
       i # parse_visits fl argv (fst (parse_body fl argv i m)) (snd (parse_body fl argv i m))"
  by (simp add: parse_visits.simps [of fl argv i m] parse_continues_def)

text \<open>Every visited position holds a token of the command line that begins with \<open>'-'\<close>.\<close>

lemma parse_visits_tokens:
  "j \<in> set (parse_visits fl argv i m) \<Longrightarrow> j < length argv \<and> begins_with_dash (argv ! j)"
proof (induction fl argv i m rule: parse_visits.induct)
  case (1 fl argv i m)
  show ?case
  proof (cases "parse_continues argv i")
    case False
    with "1.prems" show ?thesis
      by (simp add: parse_visits_stop)
  next
    case True
    then have range: "i < length argv" and dash: "begins_with_dash (argv ! i)"
      by (simp_all add: parse_continues_def)
    from "1.prems" True consider "j = i"
      | "j \<in> set (parse_visits fl argv (fst (parse_body fl argv i m)) (snd (parse_body fl argv i m)))"
      by (auto simp: parse_visits_step)
    then show ?thesis
    proof cases
      case 1
      with range dash show ?thesis by simp
    next
      case 2
      with "1.IH" [OF range dash] show ?thesis by simp
    qed
  qed
qed

lemma parse_names_tokens:
  assumes "n \<in> set (parse_names fl argv m)"
  shows "CHR ''-'' # n \<in> set argv"
proof -
  from assms obtain j where j: "j \<in> set (parse_visits fl argv 1 m)" and n: "n = tl (argv ! j)"
    by (auto simp: parse_names_def)
  from parse_visits_tokens [OF j] have "j < length argv" and "begins_with_dash (argv ! j)"
    by simp_all
  then have "argv ! j = CHR ''-'' # n" and "argv ! j \<in> set argv"
    using n by (auto simp: begins_with_dash_def split: list.splits)
  then show ?thesis by simp
qed

text \<open>An option object writes to the variable it is bound to and to no other.\<close>

lemma var_unchanged_refl: "var_unchanged flag m m"
  by (cases flag) simp_all

lemma var_unchanged_trans:
  "var_unchanged flag m m' \<Longrightarrow> var_unchanged flag m' m'' \<Longrightarrow> var_unchanged flag m m''"
  by (cases flag) simp_all

lemma opt_parse_frame:
  "flag \<noteq> flag' \<Longrightarrow> var_unchanged flag m (snd (opt_parse flag' m))"
  by (cases flag; cases flag') simp_all

lemma opt_parse_value_frame:
  "flag \<noteq> flag' \<Longrightarrow> var_unchanged flag m (opt_parse_value flag' v m)"
  by (cases flag; cases flag') simp_all

text \<open>
  One execution of the loop body leaves alone every variable that the option object
  found at the cursor is not bound to. A \<open>bool\<close> is true afterwards exactly
  when it was true before or the object found is bound to it.
\<close>

lemma parse_body_frame:
  assumes "fl (tl (argv ! i)) \<noteq> Some flag"
  shows "var_unchanged flag m (snd (parse_body fl argv i m))"
proof (cases "fl (tl (argv ! i))")
  case None
  then show ?thesis
    by (simp add: parse_body_def var_unchanged_refl)
next
  case (Some flag')
  with assms have ne: "flag \<noteq> flag'"
    by auto
  have "var_unchanged flag m (snd (opt_parse flag' m))"
    by (rule opt_parse_frame [OF ne])
  moreover have "var_unchanged flag (snd (opt_parse flag' m))
      (opt_parse_value flag' v (snd (opt_parse flag' m)))" for v
    by (rule opt_parse_value_frame [OF ne])
  ultimately show ?thesis
    using Some by (auto simp: parse_body_def split: prod.splits intro: var_unchanged_trans)
qed

lemma parse_body_bools:
  "bools (snd (parse_body fl argv i m)) a \<longleftrightarrow>
     bools m a \<or> fl (tl (argv ! i)) = Some (Typed_bool a)"
proof (cases "fl (tl (argv ! i))")
  case None
  then show ?thesis
    by (simp add: parse_body_def)
next
  case (Some flag')
  then show ?thesis
    by (cases flag') (auto simp: parse_body_def)
qed

text \<open>The same for the whole loop, over the positions it visits.\<close>

lemma parse_loop_frame:
  "\<forall>j \<in> set (parse_visits fl argv i m). fl (tl (argv ! j)) \<noteq> Some flag \<Longrightarrow>
     var_unchanged flag m (snd (parse_loop fl argv i m))"
proof (induction fl argv i m rule: parse_loop.induct)
  case (1 fl argv i m)
  show ?case
  proof (cases "parse_continues argv i")
    case False
    then show ?thesis
      by (simp add: parse_loop_stop var_unchanged_refl)
  next
    case True
    let ?i' = "fst (parse_body fl argv i m)" and ?m' = "snd (parse_body fl argv i m)"
    from True have range: "i < length argv" and dash: "begins_with_dash (argv ! i)"
      by (simp_all add: parse_continues_def)
    from "1.prems" True have here: "fl (tl (argv ! i)) \<noteq> Some flag"
      and later: "\<forall>j \<in> set (parse_visits fl argv ?i' ?m'). fl (tl (argv ! j)) \<noteq> Some flag"
      by (simp_all add: parse_visits_step)
    from parse_body_frame [of fl argv i flag m, OF here] have "var_unchanged flag m ?m'" .
    moreover from "1.IH" [OF range dash later]
    have "var_unchanged flag ?m' (snd (parse_loop fl argv ?i' ?m'))" .
    ultimately show ?thesis
      using True by (simp add: parse_loop_step var_unchanged_trans)
  qed
qed

lemma parse_loop_bools:
  "bools (snd (parse_loop fl argv i m)) a \<longleftrightarrow>
     bools m a \<or> (\<exists>j \<in> set (parse_visits fl argv i m). fl (tl (argv ! j)) = Some (Typed_bool a))"
proof (induction fl argv i m rule: parse_loop.induct)
  case (1 fl argv i m)
  show ?case
  proof (cases "parse_continues argv i")
    case False
    then show ?thesis
      by (simp add: parse_loop_stop parse_visits_stop)
  next
    case True
    from True have range: "i < length argv" and dash: "begins_with_dash (argv ! i)"
      by (simp_all add: parse_continues_def)
    from "1.IH" [OF range dash] True show ?thesis
      by (auto simp: parse_loop_step parse_visits_step parse_body_bools)
  qed
qed

lemma parse_frame:
  assumes "\<forall>n \<in> set (parse_names fl argv m). fl n \<noteq> Some flag"
  shows "var_unchanged flag m (snd (parse fl argv m))"
  unfolding parse_def using assms
  by (intro parse_loop_frame) (simp add: parse_names_def)

lemma parse_bools:
  "bools (snd (parse fl argv m)) a \<longleftrightarrow>
     bools m a \<or> (\<exists>n \<in> set (parse_names fl argv m). fl n = Some (Typed_bool a))"
  by (simp add: parse_def parse_loop_bools parse_names_def)

section \<open>Flags that take a value\<close>

text \<open>
  Extraction of an \<open>int\<close>: a blank text changes nothing; any other text decides
  the result alone, whatever the variable held; a text that starts with neither a digit
  nor a sign gives zero.
\<close>

lemma extract_int_blank:
  "\<forall>c \<in> set v. isspace c \<Longrightarrow> extract_int v x = x"
  by (simp add: extract_int_def)

lemma extract_int_nonblank:
  "\<exists>c \<in> set v. \<not> isspace c \<Longrightarrow> extract_int v x = extract_int v y"
  by (auto simp: extract_int_def Let_def)

lemma extract_int_no_number:
  assumes "dropWhile isspace v = c # cs" and "\<not> isdigit c" and "c \<noteq> CHR ''-''" and "c \<noteq> CHR ''+''"
  shows "extract_int v x = 0"
  using assms by (simp add: extract_int_def)

text \<open>
  Whether an option object asks for a value depends on its specialisation only, and an
  object that asks writes nothing in \<open>parse()\<close>.
\<close>

lemma opt_parse_needs_value:
  "fst (opt_parse flag m) \<Longrightarrow> opt_parse flag m' = (True, m')"
  by (cases flag) simp_all

text \<open>
  On a flag that asks for a value, with a token behind it, the loop body hands that
  token to the option object and moves the cursor by 2; twice in a row for the same
  flag, the object is handed the first value and then the second.
\<close>

lemma value_flag_body:
  assumes "i + 1 < length argv" and "argv ! i = CHR ''-'' # name"
    and "fl name = Some flag" and "fst (opt_parse flag m)"
  shows "parse_body fl argv i m' = (i + 2, opt_parse_value flag (argv ! (i + 1)) m')"
  using assms opt_parse_needs_value [OF assms(4), of m']
  by (simp add: parse_body_def)

lemma value_flag_loop:
  assumes "i + 1 < length argv" and "argv ! i = CHR ''-'' # name"
    and "fl name = Some flag" and "fst (opt_parse flag m)"
  shows "parse_loop fl argv i m' =
           parse_loop fl argv (i + 2) (opt_parse_value flag (argv ! (i + 1)) m')"
proof -
  from assms(1,2) have "parse_continues argv i"
    by (simp add: parse_continues_def begins_with_dash_def)
  moreover from assms have
    "parse_body fl argv i m' = (i + 2, opt_parse_value flag (argv ! (i + 1)) m')"
    using value_flag_body [of i argv name fl flag m m'] by simp
  ultimately show ?thesis
    by (simp add: parse_loop_step)
qed

lemma value_flag_twice:
  assumes "i + 3 < length argv" and "argv ! i = CHR ''-'' # name"
    and "argv ! (i + 2) = CHR ''-'' # name"
    and "fl name = Some flag" and "fst (opt_parse flag m)"
  shows "parse_loop fl argv i m =
           parse_loop fl argv (i + 4)
             (opt_parse_value flag (argv ! (i + 3)) (opt_parse_value flag (argv ! (i + 1)) m))"
proof -
  let ?m1 = "opt_parse_value flag (argv ! (i + 1)) m"
  from assms(1) have first: "i + 1 < length argv" and second: "(i + 2) + 1 < length argv"
    by simp_all
  have e: "i + 2 + 2 = i + 4" "i + 2 + 1 = i + 3"
    by simp_all
  have step1: "parse_loop fl argv i m = parse_loop fl argv (i + 2) ?m1"
    using first assms(2,4,5) value_flag_loop [of i argv name fl flag m m] by simp
  have step2: "parse_loop fl argv (i + 2) ?m1 =
      parse_loop fl argv (i + 2 + 2) (opt_parse_value flag (argv ! (i + 2 + 1)) ?m1)"
    using second assms(3,4,5) by (rule value_flag_loop)
  from step1 step2 show ?thesis
    unfolding e by (rule trans)
qed

text \<open>
  On the last element there is no token behind the flag: the body reads nothing and
  writes nothing. So a flag that asks for a value may stand at the last position
  without its variable being touched there.
\<close>

lemma value_flag_last:
  assumes "i + 1 = length argv" and "fl (tl (argv ! i)) = Some flag"
    and "fst (opt_parse flag m)"
  shows "parse_body fl argv i m' = (i + 1, m')"
  using assms opt_parse_needs_value [OF assms(3), of m']
  by (simp add: parse_body_def)

lemma parse_loop_frame_but_last:
  assumes "fst (opt_parse flag m0)"
  shows "\<forall>j \<in> set (parse_visits fl argv i m).
           j + 1 \<noteq> length argv \<longrightarrow> fl (tl (argv ! j)) \<noteq> Some flag \<Longrightarrow>
         var_unchanged flag m (snd (parse_loop fl argv i m))"
proof (induction fl argv i m rule: parse_loop.induct)
  case (1 fl argv i m)
  show ?case
  proof (cases "parse_continues argv i")
    case False
    then show ?thesis
      by (simp add: parse_loop_stop var_unchanged_refl)
  next
    case True
    let ?i' = "fst (parse_body fl argv i m)" and ?m' = "snd (parse_body fl argv i m)"
    from True have range: "i < length argv" and dash: "begins_with_dash (argv ! i)"
      by (simp_all add: parse_continues_def)
    from "1.prems" True have here: "i + 1 \<noteq> length argv \<longrightarrow> fl (tl (argv ! i)) \<noteq> Some flag"
      and later: "\<forall>j \<in> set (parse_visits fl argv ?i' ?m').
        j + 1 \<noteq> length argv \<longrightarrow> fl (tl (argv ! j)) \<noteq> Some flag"
      by (simp_all add: parse_visits_step)
    have "var_unchanged flag m ?m'"
    proof (cases "fl (tl (argv ! i)) = Some flag")
      case False
      then show ?thesis
        using parse_body_frame [of fl argv i flag m] by simp
    next
      case True
      with here have "i + 1 = length argv"
        by blast
      then have "parse_body fl argv i m = (i + 1, m)"
        using True assms by (rule value_flag_last)
      then show ?thesis
        by (simp add: var_unchanged_refl)
    qed
    moreover from "1.IH" [OF range dash later]
    have "var_unchanged flag ?m' (snd (parse_loop fl argv ?i' ?m'))" .
    ultimately show ?thesis
      using True by (simp add: parse_loop_step var_unchanged_trans)
  qed
qed

section \<open>The claims\<close>

text \<open>
  C1. For every argument vector, \<open>parse\<close> starts its cursor at index 1 and returns
  the cursor of the first loop state at which the token under the cursor does not begin
  with \<open>'-'\<close> or the cursor has reached the end of the vector: at every loop
  state before that one the cursor is inside the vector, on a token that begins with
  \<open>'-'\<close>.
\<close>

theorem parse_returns_first_stop:
  "\<exists>k. parse fl argv m = parse_iter fl argv k (1, m) \<and>
       (length argv \<le> fst (parse fl argv m) \<or>
        \<not> begins_with_dash (argv ! fst (parse fl argv m))) \<and>
       (\<forall>j<k. fst (parse_iter fl argv j (1, m)) < length argv \<and>
              begins_with_dash (argv ! fst (parse_iter fl argv j (1, m))))"
proof -
  from parse_loop_iter [of fl argv 1 m] obtain k where
    k: "parse_loop fl argv 1 m = parse_iter fl argv k (1, m)"
      "\<not> parse_continues argv (fst (parse_iter fl argv k (1, m)))"
      "\<forall>j<k. parse_continues argv (fst (parse_iter fl argv j (1, m)))"
    by blast
  from k(1) have "parse fl argv m = parse_iter fl argv k (1, m)"
    by (simp add: parse_def)
  moreover from k(1,2) have "length argv \<le> fst (parse fl argv m) \<or>
        \<not> begins_with_dash (argv ! fst (parse fl argv m))"
    by (auto simp: parse_def parse_continues_def)
  moreover from k(3) have "\<forall>j<k. fst (parse_iter fl argv j (1, m)) < length argv \<and>
              begins_with_dash (argv ! fst (parse_iter fl argv j (1, m)))"
    by (simp add: parse_continues_def)
  ultimately show ?thesis
    by blast
qed

text \<open>On a command line with a positional argument at index 3, after one execution of the body.\<close>

theorem parse_returns_first_stop_witness:
  "fst (parse [''a'' \<mapsto> Typed_string 0] [''prog'', ''-a'', ''1'', ''file'', ''-a'', ''2''] vars0) = 3 \<and>
   parse [''a'' \<mapsto> Typed_string 0] [''prog'', ''-a'', ''1'', ''file'', ''-a'', ''2''] vars0 =
     parse_iter [''a'' \<mapsto> Typed_string 0] [''prog'', ''-a'', ''1'', ''file'', ''-a'', ''2''] 1 (1, vars0) \<and>
   begins_with_dash ([''prog'', ''-a'', ''1'', ''file'', ''-a'', ''2''] ! 1) \<and>
   \<not> begins_with_dash ([''prog'', ''-a'', ''1'', ''file'', ''-a'', ''2''] ! 3)"
  using parse_returns_first_stop [of "[''a'' \<mapsto> Typed_string 0]"
      "[''prog'', ''-a'', ''1'', ''file'', ''-a'', ''2'']" vars0]
  by (simp add: parse_def parse_loop.simps parse_body_def begins_with_dash_def)

text \<open>
  C3. When the token under the cursor is a flag whose name (the token without its first
  character) is not in the registry, the loop body moves the cursor by exactly 1 and
  leaves every variable as it is, and parsing goes on from the next token. In
  particular, on \<open>["prog", "-z", "1"]\<close> with no flag \<open>z\<close> registered,
  \<open>parse\<close> returns 2, the index of \<open>"1"\<close>, and changes no variable.
\<close>

theorem unknown_flag_skipped:
  "(i < length argv \<and> argv ! i = CHR ''-'' # name \<and> fl name = None \<longrightarrow>
      parse_body fl argv i m = (i + 1, m) \<and>
      parse_loop fl argv i m = parse_loop fl argv (i + 1) m) \<and>
   (fl ''z'' = None \<longrightarrow>
      parse fl [prog, ''-z'', ''1''] m = (2, m) \<and> [prog, ''-z'', ''1''] ! 2 = ''1'')"
proof -
  have "parse_body fl argv i m = (i + 1, m) \<and>
      parse_loop fl argv i m = parse_loop fl argv (i + 1) m"
    if "i < length argv" "argv ! i = CHR ''-'' # name" "fl name = None"
  proof -
    from that have body: "parse_body fl argv i m = (i + 1, m)"
      by (simp add: parse_body_def)
    from that have "parse_continues argv i"
      by (simp add: parse_continues_def begins_with_dash_def)
    with body show ?thesis
      by (simp add: parse_loop_step)
  qed
  moreover have "parse fl [prog, ''-z'', ''1''] m = (2, m)" if "fl ''z'' = None"
    using that by (simp add: parse_def parse_loop.simps parse_body_def begins_with_dash_def)
  ultimately show ?thesis
    by simp
qed

text \<open>With an empty registry.\<close>

theorem unknown_flag_skipped_witness:
  "parse_body Map.empty [''prog'', ''-z'', ''1''] 1 vars0 = (2, vars0) \<and>
   parse Map.empty [''prog'', ''-z'', ''1''] vars0 = (2, vars0)"
  using unknown_flag_skipped [of 1 "[''prog'', ''-z'', ''1'']" "''z''" Map.empty vars0 "''prog''"]
  by simp

text \<open>
  C9. \<open>parse\<close> terminates on every argument vector and every registry: each
  execution of the loop body moves the cursor strictly forward and not past the end,
  and the loop is left after at most \<open>argc - 1\<close> executions of the body.
\<close>

theorem parse_terminates:
  "(i < length argv \<and> begins_with_dash (argv ! i) \<longrightarrow>
      i < fst (parse_body fl argv i m) \<and> fst (parse_body fl argv i m) \<le> length argv) \<and>
   (\<exists>k. k \<le> length argv - 1 \<and> parse fl argv m = parse_iter fl argv k (1, m) \<and>
      \<not> parse_continues argv (fst (parse_iter fl argv k (1, m))))"
proof -
  from parse_loop_iter [of fl argv 1 m]
  have "\<exists>k. k \<le> length argv - 1 \<and> parse fl argv m = parse_iter fl argv k (1, m) \<and>
      \<not> parse_continues argv (fst (parse_iter fl argv k (1, m)))"
    by (auto simp: parse_def)
  then show ?thesis
    using parse_body_cursor [of i argv fl m] by blast
qed

text \<open>One flag with its value: the cursor moves from 1 to 3 in one execution of the body.\<close>

theorem parse_terminates_witness:
  "1 < fst (parse_body [''a'' \<mapsto> Typed_string 0] [''prog'', ''-a'', ''1''] 1 vars0) \<and>
   fst (parse_body [''a'' \<mapsto> Typed_string 0] [''prog'', ''-a'', ''1''] 1 vars0) \<le> 3 \<and>
   parse [''a'' \<mapsto> Typed_string 0] [''prog'', ''-a'', ''1''] vars0 =
     parse_iter [''a'' \<mapsto> Typed_string 0] [''prog'', ''-a'', ''1''] 1 (1, vars0) \<and>
   \<not> parse_continues [''prog'', ''-a'', ''1'']
     (fst (parse_iter [''a'' \<mapsto> Typed_string 0] [''prog'', ''-a'', ''1''] 1 (1, vars0)))"
  using parse_terminates [of 1 "[''prog'', ''-a'', ''1'']" "[''a'' \<mapsto> Typed_string 0]" vars0]
  by (simp add: parse_def parse_loop.simps parse_body_def begins_with_dash_def parse_continues_def)

text \<open>
  C2, as stated, fails. On \<open>["prog", "-a", "1", "positional", "-b", "2"]\<close> the
  token at index 2 is \<open>"1"\<close>, and \<open>"positional"\<close> is at index 3. With
  \<open>a\<close> bound to a string the call returns 3; with \<open>a\<close> bound to a
  \<open>bool\<close> it returns 2, the index of \<open>"1"\<close>.
\<close>

theorem positional_index_counterexample:
  "fst (parse [''a'' \<mapsto> Typed_string 0]
         [''prog'', ''-a'', ''1'', ''positional'', ''-b'', ''2''] vars0) = 3 \<and>
   fst (parse [''a'' \<mapsto> Typed_bool 0]
         [''prog'', ''-a'', ''1'', ''positional'', ''-b'', ''2''] vars0) = 2 \<and>
   [''prog'', ''-a'', ''1'', ''positional'', ''-b'', ''2''] ! 2 \<noteq> ''positional''"
  by (simp add: parse_def parse_loop.simps parse_body_def begins_with_dash_def)

text \<open>
  C2, amended. On \<open>["prog", "-a", "1", "positional", "-b", "2"]\<close> with a flag
  \<open>a\<close> registered and no flag \<open>b\<close>, \<open>parse\<close> returns 3, the
  index of \<open>"positional"\<close>, when \<open>a\<close> takes a value (it has then read
  \<open>"1"\<close>), and 2, the index of \<open>"1"\<close>, when \<open>a\<close> is a
  \<open>bool\<close> flag. In both cases parsing stops at the first token under the cursor
  that is not a flag, and the later \<open>-b 2\<close> is never looked at.
\<close>

theorem parse_stops_at_positional:
  assumes "fl ''a'' = Some h" and "fl ''b'' = None"
  shows "fst (parse fl [prog, ''-a'', ''1'', ''positional'', ''-b'', ''2''] m) =
           (if fst (opt_parse h m) then 3 else 2) \<and>
         [prog, ''-a'', ''1'', ''positional'', ''-b'', ''2''] ! 3 = ''positional'' \<and>
         [prog, ''-a'', ''1'', ''positional'', ''-b'', ''2''] ! 2 = ''1'' \<and>
         snd (parse fl [prog, ''-a'', ''1'', ''positional'', ''-b'', ''2''] m) =
           (if fst (opt_parse h m) then opt_parse_value h ''1'' m else snd (opt_parse h m))"
  using assms
  by (cases h) (simp_all add: parse_def parse_loop.simps parse_body_def begins_with_dash_def)

text \<open>With \<open>a\<close> bound to an \<open>int\<close>.\<close>

theorem parse_stops_at_positional_witness:
  "fst (parse [''a'' \<mapsto> Typed_generic 0]
         [''prog'', ''-a'', ''1'', ''positional'', ''-b'', ''2''] vars0) = 3 \<and>
   ints (snd (parse [''a'' \<mapsto> Typed_generic 0]
         [''prog'', ''-a'', ''1'', ''positional'', ''-b'', ''2''] vars0)) 0 = 1"
  using parse_stops_at_positional [of "[''a'' \<mapsto> Typed_generic 0]" "Typed_generic 0" "''prog''" vars0]
  by (simp add: extract_int_def isspace_def isdigit_def INT_MAX_def INT_MIN_def)

text \<open>
  C5. When the cursor is on the token \<open>-name\<close>, a value token follows, and
  \<open>name\<close> is bound to a string variable, the loop body stores the value token
  into the variable as it is and moves the cursor by exactly 2, and parsing goes on
  behind the two tokens. When no flag that the parser looks up behind them is bound to
  the same variable, the variable holds the value token when \<open>parse\<close> returns.
  On the command line \<open>prog -name v\<close> the variable holds \<open>v\<close> when
  \<open>parse\<close> returns, and nothing else has changed.
\<close>

theorem string_flag_reads_value:
  assumes "i + 1 < length argv" and "argv ! i = CHR ''-'' # name"
    and "fl name = Some (Typed_string a)"
  shows "parse_body fl argv i m = (i + 2, m\<lparr>strings := (strings m)(a := argv ! (i + 1))\<rparr>) \<and>
         parse_loop fl argv i m =
           parse_loop fl argv (i + 2) (m\<lparr>strings := (strings m)(a := argv ! (i + 1))\<rparr>) \<and>
         ((\<forall>j \<in> set (parse_visits fl argv (i + 2)
                (m\<lparr>strings := (strings m)(a := argv ! (i + 1))\<rparr>)).
             fl (tl (argv ! j)) \<noteq> Some (Typed_string a)) \<longrightarrow>
            strings (snd (parse_loop fl argv i m)) a = argv ! (i + 1)) \<and>
         parse fl [prog, CHR ''-'' # name, v] m = (3, m\<lparr>strings := (strings m)(a := v)\<rparr>)"
proof -
  let ?m' = "m\<lparr>strings := (strings m)(a := argv ! (i + 1))\<rparr>"
  from assms have body: "parse_body fl argv i m = (i + 2, ?m')"
    by (simp add: parse_body_def)
  from assms have "parse_continues argv i"
    by (simp add: parse_continues_def begins_with_dash_def)
  then have loop: "parse_loop fl argv i m = parse_loop fl argv (i + 2) ?m'"
    by (simp add: parse_loop_step body)
  have "strings (snd (parse_loop fl argv i m)) a = argv ! (i + 1)"
    if "\<forall>j \<in> set (parse_visits fl argv (i + 2) ?m'). fl (tl (argv ! j)) \<noteq> Some (Typed_string a)"
  proof -
    from that have "var_unchanged (Typed_string a) ?m' (snd (parse_loop fl argv (i + 2) ?m'))"
      by (rule parse_loop_frame)
    then show ?thesis
      by (simp add: loop)
  qed
  moreover from assms(3) have
    "parse fl [prog, CHR ''-'' # name, v] m = (3, m\<lparr>strings := (strings m)(a := v)\<rparr>)"
    by (simp add: parse_def parse_loop.simps parse_body_def begins_with_dash_def)
  ultimately show ?thesis
    using body loop by blast
qed

text \<open>A value with punctuation, stored at address 4, with an unknown flag behind it.\<close>

theorem string_flag_reads_value_witness:
  "parse_body [''t'' \<mapsto> Typed_string 4] [''prog'', ''-t'', ''a.b,c=d'', ''-u'', ''rest''] 1 vars0 =
     (3, vars0\<lparr>strings := (strings vars0)(4 := ''a.b,c=d'')\<rparr>) \<and>
   strings (snd (parse_loop [''t'' \<mapsto> Typed_string 4]
     [''prog'', ''-t'', ''a.b,c=d'', ''-u'', ''rest''] 1 vars0)) 4 = ''a.b,c=d'' \<and>
   strings (snd (parse [''t'' \<mapsto> Typed_string 4] [''prog'', ''-t'', ''a.b,c=d''] vars0)) 4 =
     ''a.b,c=d''"
  using string_flag_reads_value [of 1 "[''prog'', ''-t'', ''a.b,c=d'', ''-u'', ''rest'']" "''t''"
      "[''t'' \<mapsto> Typed_string 4]" 4 vars0 "''prog''" "''a.b,c=d''"]
  by (simp add: parse_def parse_loop.simps parse_visits.simps parse_body_def begins_with_dash_def)

text \<open>
  C7. When the cursor is on the last element of the argument vector and that element
  is the token of a registered flag that requires a value (its \<open>parse()\<close>
  answers \<open>true\<close>), the loop body reads no value and changes no variable, and
  \<open>parse\<close> returns \<open>argc\<close> with the variables as they were. There is
  no error to report: the call has no other result than the index. For the whole call:
  when no position that the parser visits before the last one holds a flag bound to
  the same variable, the variable has after \<open>parse\<close> the value it had before.
  On the command line \<open>prog -name\<close> every variable keeps its value.
\<close>

theorem missing_value_ignored:
  assumes "i + 1 = length argv" and "argv ! i = CHR ''-'' # name"
    and "fl name = Some flag" and "fst (opt_parse flag m)"
  shows "parse_body fl argv i m = (i + 1, m) \<and>
         parse_loop fl argv i m = (length argv, m) \<and>
         ((\<forall>j \<in> set (parse_visits fl argv 1 m0). j \<noteq> i \<longrightarrow> fl (tl (argv ! j)) \<noteq> Some flag) \<longrightarrow>
            var_unchanged flag m0 (snd (parse fl argv m0))) \<and>
         parse fl [prog, CHR ''-'' # name] m = (2, m)"
proof -
  from assms have found: "fl (tl (argv ! i)) = Some flag"
    by simp
  from assms(1) found assms(4) have body: "parse_body fl argv i m = (i + 1, m)"
    by (rule value_flag_last)
  from assms have "parse_continues argv i"
    by (simp add: parse_continues_def begins_with_dash_def)
  moreover from assms(1) have "\<not> parse_continues argv (i + 1)"
    by (simp add: parse_continues_def)
  ultimately have loop: "parse_loop fl argv i m = (length argv, m)"
    using assms(1) by (simp add: parse_loop_step body parse_loop_stop)
  have whole: "var_unchanged flag m0 (snd (parse fl argv m0))"
    if "\<forall>j \<in> set (parse_visits fl argv 1 m0). j \<noteq> i \<longrightarrow> fl (tl (argv ! j)) \<noteq> Some flag"
  proof -
    from that assms(1) have "\<forall>j \<in> set (parse_visits fl argv 1 m0).
        j + 1 \<noteq> length argv \<longrightarrow> fl (tl (argv ! j)) \<noteq> Some flag"
      by auto
    with assms(4) show ?thesis
      unfolding parse_def by (rule parse_loop_frame_but_last)
  qed
  from assms(3,4) have "parse fl [prog, CHR ''-'' # name] m = (2, m)"
    by (cases flag)
      (simp_all add: parse_def parse_loop.simps parse_body_def begins_with_dash_def)
  with body loop whole show ?thesis
    by blast
qed

text \<open>An \<open>int\<close> flag at the end of a longer command line, and a stream flag alone.\<close>

theorem missing_value_ignored_witness:
  "parse_loop [''t'' \<mapsto> Typed_string 0, ''p'' \<mapsto> Typed_generic 0]
     [''prog'', ''-t'', ''x'', ''-p''] 3 vars0 = (4, vars0) \<and>
   ints (snd (parse [''t'' \<mapsto> Typed_string 0, ''p'' \<mapsto> Typed_generic 0]
     [''prog'', ''-t'', ''x'', ''-p''] vars0)) 0 = ints vars0 0 \<and>
   parse [''l'' \<mapsto> Typed_ofstream 0] [''prog'', ''-l''] vars0 = (2, vars0)"
  using missing_value_ignored [of 3 "[''prog'', ''-t'', ''x'', ''-p'']" "''p''"
      "[''t'' \<mapsto> Typed_string 0, ''p'' \<mapsto> Typed_generic 0]" "Typed_generic 0"
      vars0 vars0 "''prog''"]
    missing_value_ignored [of 1 "[''prog'', ''-l'']" "''l''"
      "[''l'' \<mapsto> Typed_ofstream 0]" "Typed_ofstream 0" vars0 vars0 "''prog''"]
  by (simp add: parse_visits.simps parse_body_def begins_with_dash_def)

text \<open>
  C4, as stated, fails. One \<open>bool\<close> variable registered under the two names
  \<open>v\<close> and \<open>verbose\<close>: on \<open>prog -v\<close> the token
  \<open>-verbose\<close> does not occur, and the variable of the flag \<open>verbose\<close>
  goes from false to true. And a token that occurs behind a positional argument is
  never parsed: on \<open>prog file -y\<close> the variable of \<open>y\<close> stays false.
\<close>

theorem bool_flag_counterexample:
  "CHR ''-'' # ''verbose'' \<notin> set [''prog'', ''-v''] \<and>
   [''v'' \<mapsto> Typed_bool 0, ''verbose'' \<mapsto> Typed_bool 0] ''verbose'' = Some (Typed_bool 0) \<and>
   bools vars0 0 = False \<and>
   bools (snd (parse [''v'' \<mapsto> Typed_bool 0, ''verbose'' \<mapsto> Typed_bool 0]
     [''prog'', ''-v''] vars0)) 0 = True \<and>
   CHR ''-'' # ''y'' \<in> set [''prog'', ''file'', ''-y''] \<and>
   bools (snd (parse [''y'' \<mapsto> Typed_bool 0] [''prog'', ''file'', ''-y''] vars0)) 0 = False"
  by (simp add: parse_def parse_loop.simps parse_body_def begins_with_dash_def vars0_def)

text \<open>
  C4, amended. For a flag \<open>name\<close> bound to a \<open>bool\<close> variable: when the
  token \<open>-name\<close> does not occur on the command line and no other flag that
  \<open>parse\<close> looks up is bound to the same variable, the variable has after
  \<open>parse\<close> the value it had before (registration does not touch it); when
  \<open>parse\<close> looks \<open>name\<close> up, the variable is true afterwards. On the
  token itself the loop body sets the variable and moves the cursor by exactly 1,
  whatever follows, and the write is done by \<open>parse()\<close> of the option object,
  which answers \<open>false\<close>.
\<close>

theorem bool_flag_sets_true:
  assumes "fl name = Some (Typed_bool a)"
  shows "(CHR ''-'' # name \<notin> set argv \<and>
          (\<forall>n \<in> set (parse_names fl argv m). n \<noteq> name \<longrightarrow> fl n \<noteq> Some (Typed_bool a)) \<longrightarrow>
            bools (snd (parse fl argv m)) a = bools m a) \<and>
         (name \<in> set (parse_names fl argv m) \<longrightarrow> bools (snd (parse fl argv m)) a = True) \<and>
         (i < length argv \<and> argv ! i = CHR ''-'' # name \<longrightarrow>
            opt_parse (Typed_bool a) m = (False, m\<lparr>bools := (bools m)(a := True)\<rparr>) \<and>
            parse_body fl argv i m = (i + 1, m\<lparr>bools := (bools m)(a := True)\<rparr>) \<and>
            parse_loop fl argv i m =
              parse_loop fl argv (i + 1) (m\<lparr>bools := (bools m)(a := True)\<rparr>))"
proof (intro conjI impI)
  assume absent: "CHR ''-'' # name \<notin> set argv \<and>
    (\<forall>n \<in> set (parse_names fl argv m). n \<noteq> name \<longrightarrow> fl n \<noteq> Some (Typed_bool a))"
  have "name \<notin> set (parse_names fl argv m)"
  proof
    assume "name \<in> set (parse_names fl argv m)"
    from parse_names_tokens [OF this] absent show False
      by simp
  qed
  with absent have "\<forall>n \<in> set (parse_names fl argv m). fl n \<noteq> Some (Typed_bool a)"
    by metis
  then show "bools (snd (parse fl argv m)) a = bools m a"
    by (simp add: parse_bools)
next
  assume "name \<in> set (parse_names fl argv m)"
  with assms have "\<exists>n \<in> set (parse_names fl argv m). fl n = Some (Typed_bool a)"
    by blast
  then show "bools (snd (parse fl argv m)) a = True"
    by (simp add: parse_bools)
next
  assume here: "i < length argv \<and> argv ! i = CHR ''-'' # name"
  show "opt_parse (Typed_bool a) m = (False, m\<lparr>bools := (bools m)(a := True)\<rparr>)"
    by simp
  from here assms show body:
    "parse_body fl argv i m = (i + 1, m\<lparr>bools := (bools m)(a := True)\<rparr>)"
    by (simp add: parse_body_def)
  from here have "parse_continues argv i"
    by (simp add: parse_continues_def begins_with_dash_def)
  then show "parse_loop fl argv i m =
      parse_loop fl argv (i + 1) (m\<lparr>bools := (bools m)(a := True)\<rparr>)"
    by (simp add: parse_loop_step body)
qed


text \<open>
  A \<open>bool\<close> flag \<open>y\<close> registered beside a string flag \<open>t\<close>,
  absent from the command line and then present on it.
\<close>

theorem bool_flag_sets_true_witness:
  "bools (snd (parse (make (Typed_bool 0) ''y'' (make (Typed_string 0) ''t'' Map.empty))
     [''prog'', ''-t'', ''x''] vars0)) 0 = bools vars0 0 \<and>
   bools (snd (parse (make (Typed_bool 0) ''y'' (make (Typed_string 0) ''t'' Map.empty))
     [''prog'', ''-t'', ''x'', ''-y''] vars0)) 0 = True \<and>
   parse_body (make (Typed_bool 0) ''y'' (make (Typed_string 0) ''t'' Map.empty))
     [''prog'', ''-t'', ''x'', ''-y''] 3 vars0 = (4, vars0\<lparr>bools := (bools vars0)(0 := True)\<rparr>)"
  using bool_flag_sets_true [of "make (Typed_bool 0) ''y'' (make (Typed_string 0) ''t'' Map.empty)"
      "''y''" 0 "[''prog'', ''-t'', ''x'']" vars0 0]
    bool_flag_sets_true [of "make (Typed_bool 0) ''y'' (make (Typed_string 0) ''t'' Map.empty)"
      "''y''" 0 "[''prog'', ''-t'', ''x'', ''-y'']" vars0 3]
  by (simp add: make_lookup parse_names_def parse_visits.simps parse_body_def
      begins_with_dash_def)

text \<open>
  C10, as stated, fails. One string variable registered under the two names
  \<open>o\<close> and \<open>output\<close>: on \<open>prog -o x.txt\<close> the name
  \<open>output\<close> is never looked up, and the variable of the flag \<open>output\<close>
  goes from empty to \<open>x.txt\<close>.
\<close>

theorem unmatched_flag_counterexample:
  "''output'' \<notin> set (parse_names [''o'' \<mapsto> Typed_string 0, ''output'' \<mapsto> Typed_string 0]
      [''prog'', ''-o'', ''x.txt''] vars0) \<and>
   [''o'' \<mapsto> Typed_string 0, ''output'' \<mapsto> Typed_string 0] ''output'' = Some (Typed_string 0) \<and>
   strings vars0 0 = [] \<and>
   strings (snd (parse [''o'' \<mapsto> Typed_string 0, ''output'' \<mapsto> Typed_string 0]
      [''prog'', ''-o'', ''x.txt''] vars0)) 0 = ''x.txt''"
  by (simp add: parse_def parse_loop.simps parse_names_def parse_visits.simps parse_body_def
      begins_with_dash_def vars0_def)

text \<open>
  C10, amended. For every registered flag whose name \<open>parse\<close> never looks up,
  and whose variable no other flag that \<open>parse\<close> looks up is bound to, the
  variable has the same value after \<open>parse\<close> as before. More generally
  \<open>parse\<close> changes only variables of option objects that it found: a variable of
  any type at any address to which no looked-up name is bound keeps its value.
\<close>

theorem unmatched_variables_kept:
  assumes "fl name = Some flag"
    and "name \<notin> set (parse_names fl argv m)"
    and "\<forall>n \<in> set (parse_names fl argv m). n \<noteq> name \<longrightarrow> fl n \<noteq> Some flag"
  shows "var_unchanged flag m (snd (parse fl argv m)) \<and>
         ((\<forall>n \<in> set (parse_names fl argv m). fl n \<noteq> Some other) \<longrightarrow>
            var_unchanged other m (snd (parse fl argv m)))"
proof
  from assms(2,3) have "\<forall>n \<in> set (parse_names fl argv m). fl n \<noteq> Some flag"
    by metis
  then show "var_unchanged flag m (snd (parse fl argv m))"
    by (rule parse_frame)
next
  show "(\<forall>n \<in> set (parse_names fl argv m). fl n \<noteq> Some other) \<longrightarrow>
      var_unchanged other m (snd (parse fl argv m))"
    using parse_frame [of fl argv m other] by blast
qed

text \<open>An \<open>int\<close> flag that is not on the command line, and a stream that no flag is bound to.\<close>

theorem unmatched_variables_kept_witness:
  "ints (snd (parse [''o'' \<mapsto> Typed_string 0, ''n'' \<mapsto> Typed_generic 0]
      [''prog'', ''-o'', ''x.txt''] vars0)) 0 = ints vars0 0 \<and>
   streams (snd (parse [''o'' \<mapsto> Typed_string 0, ''n'' \<mapsto> Typed_generic 0]
      [''prog'', ''-o'', ''x.txt''] vars0)) 5 = streams vars0 5"
  using unmatched_variables_kept [of "[''o'' \<mapsto> Typed_string 0, ''n'' \<mapsto> Typed_generic 0]"
      "''n''" "Typed_generic 0" "[''prog'', ''-o'', ''x.txt'']" vars0 "Typed_ofstream 5"]
  by (simp add: parse_names_def parse_visits.simps parse_body_def begins_with_dash_def)

text \<open>
  C6, as stated, fails. An \<open>int\<close> variable that holds 7 holds 0 after
  \<open>prog -p abc\<close>: the extraction finds no digit and stores zero. The variable
  does not keep its value.
\<close>

theorem generic_flag_counterexample:
  "ints vars0 0 = 7 \<and>
   ints (snd (parse [''p'' \<mapsto> Typed_generic 0] [''prog'', ''-p'', ''abc''] vars0)) 0 = 0"
  by (simp add: parse_def parse_loop.simps parse_body_def begins_with_dash_def vars0_def
      extract_int_def isspace_def isdigit_def)

text \<open>
  C6, amended. For a flag bound to an \<open>int\<close> variable, \<open>prog -name v\<close>
  leaves in the variable what the extraction from \<open>v\<close> gives and returns 3,
  with nothing else changed and nothing reported. From \<open>42\<close> the variable is
  42. From \<open>abc\<close>, and from every token whose first character behind leading
  blanks is neither a digit nor a sign, the variable is 0, whatever it held. An empty or
  blank token leaves the variable as it was. Every other token overwrites the variable
  with a value that the token decides alone, whatever the variable held before.
\<close>

theorem generic_flag_conversion:
  assumes "fl name = Some (Typed_generic a)"
  shows "parse fl [prog, CHR ''-'' # name, v] m =
           (3, m\<lparr>ints := (ints m)(a := extract_int v (ints m a))\<rparr>) \<and>
         extract_int ''42'' x = 42 \<and>
         extract_int ''abc'' x = 0 \<and>
         ((\<forall>c \<in> set v. isspace c) \<longrightarrow> extract_int v x = x) \<and>
         (dropWhile isspace v = c # cs \<and> \<not> isdigit c \<and> c \<noteq> CHR ''-'' \<and> c \<noteq> CHR ''+'' \<longrightarrow>
            extract_int v x = 0) \<and>
         ((\<exists>c \<in> set v. \<not> isspace c) \<longrightarrow> extract_int v x = extract_int v y)"
proof (intro conjI)
  from assms show "parse fl [prog, CHR ''-'' # name, v] m =
      (3, m\<lparr>ints := (ints m)(a := extract_int v (ints m a))\<rparr>)"
    by (simp add: parse_def parse_loop.simps parse_body_def begins_with_dash_def)
  show "extract_int ''42'' x = 42"
    by (simp add: extract_int_def isspace_def isdigit_def INT_MAX_def INT_MIN_def)
  show "extract_int ''abc'' x = 0"
    by (simp add: extract_int_def isspace_def isdigit_def)
  show "(\<forall>c \<in> set v. isspace c) \<longrightarrow> extract_int v x = x"
    by (simp add: extract_int_blank)
  show "dropWhile isspace v = c # cs \<and> \<not> isdigit c \<and> c \<noteq> CHR ''-'' \<and> c \<noteq> CHR ''+'' \<longrightarrow>
      extract_int v x = 0"
    using extract_int_no_number [of v c cs x] by blast
  show "(\<exists>c \<in> set v. \<not> isspace c) \<longrightarrow> extract_int v x = extract_int v y"
    using extract_int_nonblank [of v x y] by blast
qed

text \<open>
  A number, a blank token, and a token that starts with a letter behind a blank; the
  number gives 42 from a variable that holds 7 and from one that holds 0.
\<close>

theorem generic_flag_conversion_witness:
  "ints (snd (parse [''p'' \<mapsto> Typed_generic 0] [''prog'', ''-p'', ''42''] vars0)) 0 = 42 \<and>
   extract_int ''42'' (ints vars0 0) = extract_int ''42'' 0 \<and>
   ints (snd (parse [''p'' \<mapsto> Typed_generic 0] [''prog'', ''-p'', ''  ''] vars0)) 0 = ints vars0 0 \<and>
   ints (snd (parse [''p'' \<mapsto> Typed_generic 0] [''prog'', ''-p'', '' x1''] vars0)) 0 = 0"
  using generic_flag_conversion [of "[''p'' \<mapsto> Typed_generic 0]" "''p''" 0 "''prog''" "''42''" vars0 "ints vars0 0" "CHR ''4''" "''2''" 0]
    generic_flag_conversion [of "[''p'' \<mapsto> Typed_generic 0]" "''p''" 0 "''prog''" "''  ''" vars0 "ints vars0 0" "CHR ''x''" "[]" 0]
    generic_flag_conversion [of "[''p'' \<mapsto> Typed_generic 0]" "''p''" 0 "''prog''" "'' x1''" vars0 "ints vars0 0" "CHR ''x''" "''1''" 0]
  by (simp add: isspace_def isdigit_def)

text \<open>
  C8, as stated, fails for a flag bound to a stream. On \<open>prog -l 1 -l 2\<close>, with
  the stream closed before and every file openable, the first \<open>open\<close> binds the
  stream to the file \<open>1\<close>; the second \<open>open\<close> finds the stream open,
  fails and sets \<open>failbit\<close>. The stream stays on the first file.
\<close>

theorem last_value_counterexample:
  "open_file (streams vars0 0) = None \<and>
   open_file (streams (snd (parse [''l'' \<mapsto> Typed_ofstream 0]
     [''prog'', ''-l'', ''1'', ''-l'', ''2''] vars0)) 0) = Some ''1'' \<and>
   failbit (streams (snd (parse [''l'' \<mapsto> Typed_ofstream 0]
     [''prog'', ''-l'', ''1'', ''-l'', ''2''] vars0)) 0) = True"
  by (simp add: parse_def parse_loop.simps parse_body_def begins_with_dash_def vars0_def
      ofstream_open_def)

text \<open>
  C8, amended. When the tokens \<open>-name v1 -name v2\<close> are under the cursor:
  a string variable holds \<open>v2\<close> behind them; an \<open>int\<close> variable
  holds what the extraction from \<open>v2\<close> gives, whatever \<open>v1\<close> was,
  provided \<open>v2\<close> is not blank; a stream that was closed and could open
  \<open>v1\<close> stays open on \<open>v1\<close>, with \<open>failbit\<close> set. On
  \<open>prog -name 1 -name 2\<close> a string variable ends as \<open>"2"\<close> and an
  \<open>int\<close> variable as 2.
\<close>

theorem last_value_wins:
  assumes "i + 3 < length argv" and "argv ! i = CHR ''-'' # name"
    and "argv ! (i + 2) = CHR ''-'' # name"
  shows "(fl name = Some (Typed_string a) \<longrightarrow>
            parse_loop fl argv i m =
              parse_loop fl argv (i + 4) (m\<lparr>strings := (strings m)(a := argv ! (i + 3))\<rparr>)) \<and>
         (fl name = Some (Typed_generic a) \<and> (\<exists>c \<in> set (argv ! (i + 3)). \<not> isspace c) \<longrightarrow>
            parse_loop fl argv i m =
              parse_loop fl argv (i + 4)
                (m\<lparr>ints := (ints m)(a := extract_int (argv ! (i + 3)) (ints m a))\<rparr>)) \<and>
         (fl name = Some (Typed_ofstream a) \<and> open_file (streams m a) = None \<and>
            can_open m (argv ! (i + 1)) \<longrightarrow>
            parse_loop fl argv i m =
              parse_loop fl argv (i + 4)
                (m\<lparr>streams := (streams m)
                   (a := (streams m a)\<lparr>open_file := Some (argv ! (i + 1)), failbit := True\<rparr>)\<rparr>)) \<and>
         (fl name = Some (Typed_string a) \<longrightarrow>
            parse fl [prog, CHR ''-'' # name, ''1'', CHR ''-'' # name, ''2''] m =
              (5, m\<lparr>strings := (strings m)(a := ''2'')\<rparr>)) \<and>
         (fl name = Some (Typed_generic a) \<longrightarrow>
            parse fl [prog, CHR ''-'' # name, ''1'', CHR ''-'' # name, ''2''] m =
              (5, m\<lparr>ints := (ints m)(a := 2)\<rparr>))"
proof (intro conjI impI)
  assume flag: "fl name = Some (Typed_string a)"
  from value_flag_twice [of i argv name fl "Typed_string a" m] assms flag
  show "parse_loop fl argv i m =
      parse_loop fl argv (i + 4) (m\<lparr>strings := (strings m)(a := argv ! (i + 3))\<rparr>)"
    by simp
next
  assume "fl name = Some (Typed_generic a) \<and> (\<exists>c \<in> set (argv ! (i + 3)). \<not> isspace c)"
  then have flag: "fl name = Some (Typed_generic a)"
    and same: "extract_int (argv ! (i + 3)) (extract_int (argv ! (i + 1)) (ints m a)) =
      extract_int (argv ! (i + 3)) (ints m a)"
    using extract_int_nonblank [of "argv ! (i + 3)"] by simp_all
  from value_flag_twice [of i argv name fl "Typed_generic a" m] assms flag same
  show "parse_loop fl argv i m =
      parse_loop fl argv (i + 4)
        (m\<lparr>ints := (ints m)(a := extract_int (argv ! (i + 3)) (ints m a))\<rparr>)"
    by simp
next
  assume "fl name = Some (Typed_ofstream a) \<and> open_file (streams m a) = None \<and>
    can_open m (argv ! (i + 1))"
  then have flag: "fl name = Some (Typed_ofstream a)"
    and twice: "ofstream_open (can_open m) (argv ! (i + 3))
        (ofstream_open (can_open m) (argv ! (i + 1)) (streams m a)) =
      (streams m a)\<lparr>open_file := Some (argv ! (i + 1)), failbit := True\<rparr>"
    by (simp_all add: ofstream_open_def)
  from value_flag_twice [of i argv name fl "Typed_ofstream a" m] assms flag twice
  show "parse_loop fl argv i m =
      parse_loop fl argv (i + 4)
        (m\<lparr>streams := (streams m)
           (a := (streams m a)\<lparr>open_file := Some (argv ! (i + 1)), failbit := True\<rparr>)\<rparr>)"
    by simp
next
  assume "fl name = Some (Typed_string a)"
  then show "parse fl [prog, CHR ''-'' # name, ''1'', CHR ''-'' # name, ''2''] m =
      (5, m\<lparr>strings := (strings m)(a := ''2'')\<rparr>)"
    by (simp add: parse_def parse_loop.simps parse_body_def begins_with_dash_def)
next
  assume "fl name = Some (Typed_generic a)"
  then show "parse fl [prog, CHR ''-'' # name, ''1'', CHR ''-'' # name, ''2''] m =
      (5, m\<lparr>ints := (ints m)(a := 2)\<rparr>)"
    by (simp add: parse_def parse_loop.simps parse_body_def begins_with_dash_def
        extract_int_def isspace_def isdigit_def INT_MAX_def INT_MIN_def)
qed

text \<open>The command line of the claim for a string and an \<open>int\<close>, and two longer ones.\<close>

theorem last_value_wins_witness:
  "parse [''n'' \<mapsto> Typed_string 0] [''prog'', ''-n'', ''1'', ''-n'', ''2''] vars0 =
     (5, vars0\<lparr>strings := (strings vars0)(0 := ''2'')\<rparr>) \<and>
   parse [''n'' \<mapsto> Typed_generic 0] [''prog'', ''-n'', ''1'', ''-n'', ''2''] vars0 =
     (5, vars0\<lparr>ints := (ints vars0)(0 := 2)\<rparr>) \<and>
   parse_loop [''n'' \<mapsto> Typed_generic 0] [''prog'', ''-n'', ''1'', ''-n'', ''x'', ''f''] 1 vars0 =
     parse_loop [''n'' \<mapsto> Typed_generic 0] [''prog'', ''-n'', ''1'', ''-n'', ''x'', ''f''] 5
       (vars0\<lparr>ints := (ints vars0)(0 := 0)\<rparr>) \<and>
   parse_loop [''n'' \<mapsto> Typed_ofstream 0] [''prog'', ''-n'', ''1'', ''-n'', ''2'', ''f''] 1 vars0 =
     parse_loop [''n'' \<mapsto> Typed_ofstream 0] [''prog'', ''-n'', ''1'', ''-n'', ''2'', ''f''] 5
       (vars0\<lparr>streams := (streams vars0)
          (0 := (streams vars0 0)\<lparr>open_file := Some ''1'', failbit := True\<rparr>)\<rparr>)"
  using last_value_wins [of 1 "[''prog'', ''-n'', ''1'', ''-n'', ''2'']" "''n''"
      "[''n'' \<mapsto> Typed_string 0]" 0 vars0 "''prog''"]
    last_value_wins [of 1 "[''prog'', ''-n'', ''1'', ''-n'', ''2'']" "''n''"
      "[''n'' \<mapsto> Typed_generic 0]" 0 vars0 "''prog''"]
    last_value_wins [of 1 "[''prog'', ''-n'', ''1'', ''-n'', ''x'', ''f'']" "''n''"
      "[''n'' \<mapsto> Typed_generic 0]" 0 vars0 "''prog''"]
    last_value_wins [of 1 "[''prog'', ''-n'', ''1'', ''-n'', ''2'', ''f'']" "''n''"
      "[''n'' \<mapsto> Typed_ofstream 0]" 0 vars0 "''prog''"]
  by (simp add: isspace_def isdigit_def extract_int_def vars0_def)

end
